theory Spec2Isabelle
  imports Complex_Main
begin

section \<open>The image-to-text page: data model\<close>

text \<open>
  The component \<open>Home\<close> of \<open>src/app/page.tsx\<close> keeps six \<open>useState\<close> cells and one
  \<open>useRef\<close> cell. Outside the component live the two resources it acquires: the
  object URLs handed out by \<open>URL.createObjectURL\<close> and the recognition workers of
  tesseract.js. All of it is one record, passed through every handler.

  A \<open>File\<close> is identified by its name, an object URL by the number of the
  \<open>createObjectURL\<close> call that made it (the browser returns a new \<open>blob:\<close> URL on
  every call). A JavaScript \<open>number\<close> is an IEEE 754 double: a real number that
  \<open>to_double\<close> below leaves as it is. Arithmetic on numbers rounds the exact result to
  the nearest double.
\<close>

type_synonym image_file = string
type_synonym url = nat

record state =
  selectedImage :: "url option"
  extractedText :: string
  progress :: int
  progressLabel :: string
  loading :: bool
  error :: string
  imageFileRef :: "image_file option"
  objectURLs :: "url set"
  nextURL :: url
  workersCreated :: nat
  terminateCalls :: nat

text \<open>The initial values of the hooks, with no object URL and no worker yet.\<close>

definition initial_state :: state where
  "initial_state =
     \<lparr>selectedImage = None, extractedText = [], progress = 0, progressLabel = ''Idle'',
      loading = False, error = [], imageFileRef = None,
      objectURLs = {}, nextURL = 0, workersCreated = 0, terminateCalls = 0\<rparr>"

text \<open>
  What the OCR library does during one call of \<open>processImage\<close>: the messages it passes
  to the \<open>logger\<close> callback while \<open>createWorker\<close> is pending, how \<open>createWorker\<close> settles,
  the messages passed while \<open>worker.recognize\<close> is pending, and how \<open>recognize\<close> settles.
  A rejected promise carries the thrown value: an \<open>Error\<close> with its \<open>message\<close>, or any
  other value (a string, a number, a plain object), for which \<open>instanceof Error\<close> is false.
  \<open>worker.terminate()\<close> only ends the worker and always resolves.
\<close>

datatype thrown = JsError string | NonError string

datatype 'a settled = Resolved 'a | Rejected thrown

datatype message = Message (status: string) (m_progress: real)

record ocr =
  createWorker_messages :: "message list"
  createWorker_result :: "unit settled"
  recognize_messages :: "message list"
  recognize_result :: "string settled"

section \<open>JavaScript primitives\<close>

text \<open>
  Double precision. A double other than 0 is \<open>k * 2 ^ (e - 52)\<close> for an integer \<open>k\<close> of at
  most 53 bits and an exponent \<open>e\<close> from -1022 to 1023. \<open>binade 2045 x\<close> is the exponent
  of the binade of \<open>x\<close>: the largest \<open>e\<close> in that range with \<open>2 ^ e \<le> x\<close>, or -1022 for
  the subnormal numbers below; \<open>ulp x\<close> is the distance between the doubles there.
  \<open>to_double\<close> rounds a real to the nearest double, a tie going to the even one, as
  every arithmetic operation of JavaScript does with its exact result. Magnitudes from
  \<open>2 ^ 1024\<close> on, which round to \<open>Infinity\<close>, are outside the model.
\<close>

definition round_half_even :: "real \<Rightarrow> int" where
  "round_half_even y =
     (if y - of_int \<lfloor>y\<rfloor> < 1 / 2 then \<lfloor>y\<rfloor>
      else if 1 / 2 < y - of_int \<lfloor>y\<rfloor> then \<lfloor>y\<rfloor> + 1
      else if even \<lfloor>y\<rfloor> then \<lfloor>y\<rfloor> else \<lfloor>y\<rfloor> + 1)"

fun binade :: "nat \<Rightarrow> real \<Rightarrow> int" where
  "binade 0 x = - 1022"
| "binade (Suc n) x = (if 2 powi (int n - 1021) \<le> x then int n - 1021 else binade n x)"

definition ulp :: "real \<Rightarrow> real" where
  "ulp x = 2 powi (binade 2045 \<bar>x\<bar> - 52)"

definition to_double :: "real \<Rightarrow> real" where
  "to_double x = of_int (round_half_even (x / ulp x)) * ulp x"

text \<open>The operator \<open>*\<close> on two numbers.\<close>

definition times_double :: "real \<Rightarrow> real \<Rightarrow> real" where
  "times_double x y = to_double (x * y)"

text \<open>
  \<open>Math.round\<close> of a double: the nearest integer, a tie going up. The result is exact.
\<close>

definition Math_round :: "real \<Rightarrow> int" where
  "Math_round x = \<lfloor>x + 1 / 2\<rfloor>"

text \<open>The decimal text of an integer, as a template literal prints it.\<close>

definition digit_char :: "nat \<Rightarrow> char" where
  "digit_char d = char_of (48 + d)"

function string_of_nat :: "nat \<Rightarrow> string" where
  "string_of_nat n =
     (if n < 10 then [digit_char n] else string_of_nat (n div 10) @ [digit_char (n mod 10)])"
  by pat_completeness auto
termination
  by (relation "measure id") auto

declare string_of_nat.simps [simp del]

definition string_of_int :: "int \<Rightarrow> string" where
  "string_of_int i = (if i < 0 then ''-'' @ string_of_nat (nat (- i)) else string_of_nat (nat i))"

text \<open>\<open>URL.createObjectURL\<close> registers a new URL; \<open>URL.revokeObjectURL\<close> releases one.\<close>

definition createObjectURL :: "image_file \<Rightarrow> state \<Rightarrow> url \<times> state" where
  "createObjectURL f s =
     (nextURL s, s\<lparr>objectURLs := insert (nextURL s) (objectURLs s), nextURL := Suc (nextURL s)\<rparr>)"

definition revokeObjectURL :: "url \<Rightarrow> state \<Rightarrow> state" where
  "revokeObjectURL u s = s\<lparr>objectURLs := objectURLs s - {u}\<rparr>"

section \<open>Selecting an image\<close>

text \<open>
  \<open>handleImageChange\<close> (lines 30--42). The argument is \<open>event.target.files\<close>: \<open>null\<close>, or
  a list whose first element, when there is one, is the chosen file.
\<close>

definition handleImageChange :: "image_file list option \<Rightarrow> state \<Rightarrow> state" where
  "handleImageChange files s =
     (case files of
        Some (f # rest) \<Rightarrow>
          (case createObjectURL f (s\<lparr>imageFileRef := Some f\<rparr>) of
             (u, s') \<Rightarrow>
               s'\<lparr>selectedImage := Some u, extractedText := [], progress := 0,
                  progressLabel := ''Idle'', error := []\<rparr>)
      | _ \<Rightarrow> s)"

text \<open>
  The \<open>useEffect\<close> of lines 118--124 has no body but a cleanup, which revokes the
  \<open>selectedImage\<close> of the render that installed it. React runs the cleanup of the
  previous render when the dependency \<open>selectedImage\<close> has changed, and on unmount.
\<close>

definition effect_cleanup :: "url option \<Rightarrow> state \<Rightarrow> state" where
  "effect_cleanup sel s = (case sel of Some u \<Rightarrow> revokeObjectURL u s | None \<Rightarrow> s)"

definition rerender :: "url option \<Rightarrow> state \<Rightarrow> state" where
  "rerender prev s = (if selectedImage s = prev then s else effect_cleanup prev s)"

definition unmount :: "state \<Rightarrow> state" where
  "unmount s = effect_cleanup (selectedImage s) s"

text \<open>One selection as the user sees it: the change event, then React's re-render.\<close>

definition selectImage :: "image_file list option \<Rightarrow> state \<Rightarrow> state" where
  "selectImage files s = rerender (selectedImage s) (handleImageChange files s)"

fun selections :: "image_file list \<Rightarrow> state \<Rightarrow> state" where
  "selections [] s = s"
| "selections (f # fs) s = selections fs (selectImage (Some [f]) s)"

text \<open>The preview is the only holder of object URLs: the live ones are exactly the selected one.\<close>

definition handles_ok :: "state \<Rightarrow> bool" where
  "handles_ok s = (objectURLs s = set_option (selectedImage s) \<and> Ball (objectURLs s) (\<lambda>u. u < nextURL s))"

section \<open>Converting\<close>

text \<open>The \<open>logger\<close> callback (lines 65--81); \<open>console.log\<close> has no effect on the state.\<close>

definition logger :: "message \<Rightarrow> state \<Rightarrow> state" where
  "logger m s =
     (if status m = ''recognizing text'' then
        s\<lparr>progress := Math_round (times_double (m_progress m) 100),
          progressLabel :=
            ''Recognizing text: '' @ string_of_int (Math_round (times_double (m_progress m) 100)) @ ''%''\<rparr>
      else if status m = ''loading tesseract core'' then
        s\<lparr>progressLabel := ''Loading Tesseract core...''\<rparr>
      else if status m = ''initializing tesseract'' then
        s\<lparr>progressLabel := ''Initializing Tesseract...''\<rparr>
      else if status m = ''loading language traineddata'' then
        s\<lparr>progressLabel := ''Loading language data...''\<rparr>
      else if status m = ''done'' then
        s\<lparr>progressLabel := ''Finishing up...''\<rparr>
      else s)"

text \<open>Messages are handled one at a time, in the order the library delivers them.\<close>

fun deliver :: "message list \<Rightarrow> state \<Rightarrow> state" where
  "deliver [] s = s"
| "deliver (m # ms) s = deliver ms (logger m s)"

text \<open>The same, keeping the state after every message.\<close>

fun deliver_states :: "message list \<Rightarrow> state \<Rightarrow> state list" where
  "deliver_states [] s = []"
| "deliver_states (m # ms) s = logger m s # deliver_states ms (logger m s)"

text \<open>The pieces of \<open>processImage\<close>: lines 54--58, 87--93, 95--107 and 109.\<close>

definition processImage_start :: "state \<Rightarrow> state" where
  "processImage_start s =
     s\<lparr>loading := True, extractedText := [], progress := 0,
       progressLabel := ''Loading Tesseract core...'', error := []\<rparr>"

definition worker_terminate :: "state \<Rightarrow> state" where
  "worker_terminate s = s\<lparr>terminateCalls := Suc (terminateCalls s)\<rparr>"

definition processImage_success :: "string \<Rightarrow> state \<Rightarrow> state" where
  "processImage_success text s =
     worker_terminate (s\<lparr>extractedText := text, progress := 100, progressLabel := ''Done!''\<rparr>)"

definition processImage_catch :: "thrown \<Rightarrow> state \<Rightarrow> state" where
  "processImage_catch err s =
     (case err of
        JsError msg \<Rightarrow> s\<lparr>error := ''Failed to extract text: '' @ msg\<rparr>
      | NonError v \<Rightarrow> s\<lparr>error := ''Failed to extract text: An unexpected error occurred.''\<rparr>)
     \<lparr>extractedText := [], progress := 0, progressLabel := ''Error''\<rparr>"

definition processImage_finally :: "state \<Rightarrow> state" where
  "processImage_finally s = s\<lparr>loading := False\<rparr>"

text \<open>
  \<open>processImage\<close> (lines 48--111), run to its end against one behaviour of the library.
  A rejection of \<open>createWorker\<close> or of \<open>recognize\<close> jumps to the \<open>catch\<close> block, past
  \<open>worker.terminate()\<close>; the \<open>finally\<close> block runs on both paths.
\<close>

definition processImage :: "ocr \<Rightarrow> state \<Rightarrow> state" where
  "processImage c s =
     (if imageFileRef s = None then
        s\<lparr>error := ''Please select an image first to start conversion.''\<rparr>
      else
        let s1 = deliver (createWorker_messages c) (processImage_start s) in
        processImage_finally
          (case createWorker_result c of
             Rejected err \<Rightarrow> processImage_catch err s1
           | Resolved w \<Rightarrow>
               let s2 = deliver (recognize_messages c) (s1\<lparr>workersCreated := Suc (workersCreated s1)\<rparr>) in
               (case recognize_result c of
                  Rejected err \<Rightarrow> processImage_catch err s2
                | Resolved text \<Rightarrow> processImage_success text s2)))"

text \<open>
  The states the page goes through during that run, one per update: after the reset,
  after each message, after the \<open>try\<close> or \<open>catch\<close> block, after \<open>finally\<close>.
\<close>

definition processImage_states :: "ocr \<Rightarrow> state \<Rightarrow> state list" where
  "processImage_states c s =
     (if imageFileRef s = None then
        [s\<lparr>error := ''Please select an image first to start conversion.''\<rparr>]
      else
        let s0 = processImage_start s;
            t1 = deliver_states (createWorker_messages c) s0;
            s1 = deliver (createWorker_messages c) s0 in
        (case createWorker_result c of
           Rejected err \<Rightarrow>
             s0 # t1 @ [processImage_catch err s1, processImage_finally (processImage_catch err s1)]
         | Resolved w \<Rightarrow>
             let s1' = s1\<lparr>workersCreated := Suc (workersCreated s1)\<rparr>;
                 t2 = deliver_states (recognize_messages c) s1';
                 s2 = deliver (recognize_messages c) s1' in
             (case recognize_result c of
                Rejected err \<Rightarrow>
                  s0 # t1 @ t2 @ [processImage_catch err s2, processImage_finally (processImage_catch err s2)]
              | Resolved text \<Rightarrow>
                  s0 # t1 @ t2 @ [processImage_success text s2,
                                   processImage_finally (processImage_success text s2)])))"

definition progress_trace :: "ocr \<Rightarrow> state \<Rightarrow> int list" where
  "progress_trace c s = map progress (processImage_states c s)"

text \<open>
  The convert button (lines 165--182): \<open>onClick={processImage}\<close> behind
  \<open>disabled={!imageFileRef.current || loading}\<close>. A disabled button fires no click.
\<close>

definition convert_disabled :: "state \<Rightarrow> bool" where
  "convert_disabled s = (imageFileRef s = None \<or> loading s)"

definition clickConvert :: "ocr \<Rightarrow> state \<Rightarrow> state" where
  "clickConvert c s = (if convert_disabled s then s else processImage c s)"

text \<open>The fractions of the \<open>recognizing text\<close> messages, in the order delivered.\<close>

definition recognizing_fractions :: "message list \<Rightarrow> real list" where
  "recognizing_fractions ms = map m_progress (filter (\<lambda>m. status m = ''recognizing text'') ms)"

text \<open>
  The messages that reach the callback in a run: \<open>recognize\<close> is not called, and
  reports nothing, when \<open>createWorker\<close> has rejected.
\<close>

definition delivered_messages :: "ocr \<Rightarrow> message list" where
  "delivered_messages c =
     (case createWorker_result c of
        Rejected err \<Rightarrow> createWorker_messages c
      | Resolved w \<Rightarrow> createWorker_messages c @ recognize_messages c)"

section \<open>Concrete runs\<close>

definition receipt_run :: ocr where
  "receipt_run =
     \<lparr>createWorker_messages =
        [Message ''loading tesseract core'' 0, Message ''initializing tesseract'' 0],
      createWorker_result = Resolved (),
      recognize_messages =
        [Message ''recognizing text'' (1 / 4), Message ''recognizing text'' (9 / 10),
         Message ''done'' 1],
      recognize_result = Resolved ''TOTAL $12.34''\<rparr>"

definition receipt_selected :: state where
  "receipt_selected = selectImage (Some [''receipt.png'']) initial_state"

text \<open>
  \<open>recognize\<close> fails half way through: the worker exists, and \<open>recognize\<close> rejects
  with \<open>new Error("network error")\<close>.
\<close>

definition recognize_fails_run :: ocr where
  "recognize_fails_run =
     \<lparr>createWorker_messages = [Message ''loading tesseract core'' 0],
      createWorker_result = Resolved (),
      recognize_messages = [Message ''recognizing text'' (1 / 2)],
      recognize_result = Rejected (JsError ''network error'')\<rparr>"

text \<open>\<open>createWorker\<close> itself fails while the language model is loading.\<close>

definition model_load_fails_run :: ocr where
  "model_load_fails_run =
     \<lparr>createWorker_messages =
        [Message ''loading tesseract core'' 0, Message ''loading language traineddata'' 0],
      createWorker_result = Rejected (JsError ''network error''),
      recognize_messages = [],
      recognize_result = Resolved []\<rparr>"

text \<open>A successful run whose second report is lower than its first.\<close>

definition backwards_run :: ocr where
  "backwards_run =
     \<lparr>createWorker_messages = [],
      createWorker_result = Resolved (),
      recognize_messages =
        [Message ''recognizing text'' (9 / 10), Message ''recognizing text'' (1 / 4)],
      recognize_result = Resolved ''TOTAL $12.34''\<rparr>"

text \<open>The page in the middle of a job: the state of \<open>receipt_run\<close> after the report of 25%.\<close>

definition active_state :: state where
  "active_state = processImage_states receipt_run receipt_selected ! 3"

text \<open>The double nearest to 0.015, which is what the literal \<open>0.015\<close> denotes.\<close>

definition double_0_015 :: real where
  "double_0_015 = 1080863910568919 / 72057594037927936"

section \<open>Auxiliary facts\<close>

text \<open>The callback writes \<open>progress\<close> and \<open>progressLabel\<close> and nothing else.\<close>

lemma logger_untouched [simp]:
  "extractedText (logger m s) = extractedText s"
  "loading (logger m s) = loading s"
  "error (logger m s) = error s"
  "imageFileRef (logger m s) = imageFileRef s"
  "selectedImage (logger m s) = selectedImage s"
  "objectURLs (logger m s) = objectURLs s"
  "nextURL (logger m s) = nextURL s"
  "workersCreated (logger m s) = workersCreated s"
  "terminateCalls (logger m s) = terminateCalls s"
  by (simp_all add: logger_def)

lemma deliver_untouched [simp]:
  "extractedText (deliver ms s) = extractedText s"
  "loading (deliver ms s) = loading s"
  "error (deliver ms s) = error s"
  "imageFileRef (deliver ms s) = imageFileRef s"
  "selectedImage (deliver ms s) = selectedImage s"
  "objectURLs (deliver ms s) = objectURLs s"
  "nextURL (deliver ms s) = nextURL s"
  "workersCreated (deliver ms s) = workersCreated s"
  "terminateCalls (deliver ms s) = terminateCalls s"
  by (induction ms arbitrary: s; simp)+

lemma deliver_append: "deliver (xs @ ys) s = deliver ys (deliver xs s)"
  by (induction xs arbitrary: s) simp_all

lemma deliver_states_append:
  "deliver_states (xs @ ys) s = deliver_states xs s @ deliver_states ys (deliver xs s)"
  by (induction xs arbitrary: s) simp_all

lemma deliver_progress_frame:
  "\<forall>m \<in> set ms. status m \<noteq> ''recognizing text'' \<Longrightarrow> progress (deliver ms s) = progress s"
  by (induction ms arbitrary: s) (simp_all add: logger_def)

lemma logger_workersCreated:
  "logger m (s\<lparr>workersCreated := n\<rparr>) = (logger m s)\<lparr>workersCreated := n\<rparr>"
  by (simp add: logger_def)

lemma deliver_workersCreated:
  "deliver ms (s\<lparr>workersCreated := n\<rparr>) = (deliver ms s)\<lparr>workersCreated := n\<rparr>"
  by (induction ms arbitrary: s) (simp_all add: logger_workersCreated)

lemma deliver_states_workersCreated:
  "map progress (deliver_states ms (s\<lparr>workersCreated := n\<rparr>)) = map progress (deliver_states ms s)"
  by (induction ms arbitrary: s) (simp_all add: logger_workersCreated)

text \<open>The list of states ends in the state \<open>processImage\<close> returns.\<close>

lemma processImage_states_last: "last (processImage_states c s) = processImage c s"
  by (simp add: processImage_states_def processImage_def Let_def split: settled.splits)

subsection \<open>Double precision\<close>

text \<open>The binade found by the search is the one that holds the number.\<close>

lemma binade_ge: "- 1022 \<le> binade n x"
  by (induction n) simp_all

lemma binade_le: "binade n x \<le> int n - 1022"
  by (induction n) auto

lemma binade_lower: "binade n x \<noteq> - 1022 \<Longrightarrow> 2 powi (binade n x) \<le> x"
  by (induction n) (simp_all split: if_splits)

lemma binade_upper: "binade n x < int n - 1022 \<Longrightarrow> x < 2 powi (binade n x + 1)"
proof (induction n)
  case 0
  then show ?case by simp
next
  case (Suc n)
  show ?case
  proof (cases "2 powi (int n - 1021) \<le> x")
    case True
    with Suc.prems show ?thesis by simp
  next
    case False
    then have same: "binade (Suc n) x = binade n x" by simp
    show ?thesis
    proof (cases "binade n x < int n - 1022")
      case True
      from Suc.IH [OF this] show ?thesis by (simp only: same)
    next
      case top: False
      with binade_le [of n x] have "binade n x = int n - 1022" by simp
      then have "binade n x + 1 = int n - 1021" by simp
      moreover from False have "x < 2 powi (int n - 1021)" by simp
      ultimately show ?thesis by (simp only: same)
    qed
  qed
qed

lemma binade_mono: "x \<le> y \<Longrightarrow> binade n x \<le> binade n y"
proof (induction n)
  case 0
  then show ?case by simp
next
  case (Suc n)
  then show ?case
    using binade_le [of n x] by auto
qed

lemma binade_eq:
  assumes "2 powi e \<le> x" and "x < 2 powi (e + 1)" and "- 1022 \<le> e" and "e \<le> 1023"
  shows "binade 2045 x = e"
proof (rule ccontr)
  assume neq: "binade 2045 x \<noteq> e"
  let ?E = "binade 2045 x"
  show False
  proof (cases "?E < e")
    case True
    then have "?E < int 2045 - 1022" using assms(4) by simp
    from binade_upper [OF this] have "x < 2 powi (?E + 1)" .
    also have "\<dots> \<le> (2::real) powi e"
      using True by (intro power_int_increasing) simp_all
    finally show False using assms(1) by simp
  next
    case False
    with neq have gt: "e + 1 \<le> ?E" by simp
    then have "?E \<noteq> - 1022" using assms(3) by simp
    from binade_lower [OF this] have "2 powi ?E \<le> x" .
    moreover have "(2::real) powi (e + 1) \<le> 2 powi ?E"
      using gt by (intro power_int_increasing) simp_all
    ultimately show False using assms(2) by simp
  qed
qed

lemma binade_tiny:
  assumes "x < 2 powi (- 1021)"
  shows "binade 2045 x = - 1022"
proof (rule ccontr)
  assume neq: "binade 2045 x \<noteq> - 1022"
  from binade_lower [OF this] have "2 powi (binade 2045 x) \<le> x" .
  moreover have "(2::real) powi (- 1021) \<le> 2 powi (binade 2045 x)"
    using neq binade_ge [of 2045 x] by (intro power_int_increasing) simp_all
  ultimately show False using assms by simp
qed

lemma rhe_int [simp]: "round_half_even (of_int n) = n"
  by (simp add: round_half_even_def)

lemma rhe_floor: "\<lfloor>y\<rfloor> \<le> round_half_even y" "round_half_even y \<le> \<lfloor>y\<rfloor> + 1"
  by (simp_all add: round_half_even_def)

lemma rhe_err: "\<bar>of_int (round_half_even y) - y\<bar> \<le> 1 / 2"
  unfolding round_half_even_def by (auto; linarith)

lemma rhe_mono:
  assumes "x \<le> y"
  shows "round_half_even x \<le> round_half_even y"
proof (cases "\<lfloor>x\<rfloor> = \<lfloor>y\<rfloor>")
  case True
  then show ?thesis
    using assms unfolding round_half_even_def by (auto; linarith)
next
  case False
  with assms have "\<lfloor>x\<rfloor> + 1 \<le> \<lfloor>y\<rfloor>"
    using floor_mono [OF assms] by simp
  then show ?thesis
    using rhe_floor(2) [of x] rhe_floor(1) [of y] by linarith
qed

lemma rhe_le_int: "y \<le> of_int n \<Longrightarrow> round_half_even y \<le> n"
  using rhe_mono [of y "of_int n"] by simp

lemma rhe_ge_int: "of_int n \<le> y \<Longrightarrow> n \<le> round_half_even y"
  using rhe_mono [of "of_int n" y] by simp

text \<open>
  Rounding to a double moves a number by at most half the distance between doubles,
  keeps the order of non-negative numbers, and leaves a double as it is.
\<close>

lemma ulp_pos: "0 < ulp x"
  by (simp add: ulp_def)

lemma to_double_err: "\<bar>to_double x - x\<bar> \<le> ulp x / 2"
proof -
  have "to_double x - x = (of_int (round_half_even (x / ulp x)) - x / ulp x) * ulp x"
    using ulp_pos [of x] by (simp add: to_double_def field_simps)
  then have "\<bar>to_double x - x\<bar> = \<bar>of_int (round_half_even (x / ulp x)) - x / ulp x\<bar> * ulp x"
    using ulp_pos [of x] by (simp add: abs_mult)
  also have "\<dots> \<le> 1 / 2 * ulp x"
    using rhe_err [of "x / ulp x"] ulp_pos [of x] by (intro mult_right_mono) simp_all
  finally show ?thesis by simp
qed

lemma to_double_0 [simp]: "to_double 0 = 0"
  by (simp add: to_double_def round_half_even_def)

lemma to_double_mono:
  assumes "0 \<le> x" and "x \<le> y"
  shows "to_double x \<le> to_double y"
proof -
  let ?a = "binade 2045 x" and ?b = "binade 2045 y"
  have ux: "ulp x = 2 powi (?a - 52)" and uy: "ulp y = 2 powi (?b - 52)"
    using assms by (simp_all add: ulp_def)
  have ab: "?a \<le> ?b" using assms(2) by (rule binade_mono)
  show ?thesis
  proof (cases "?a = ?b")
    case True
    then have same: "ulp y = ulp x" by (simp add: ux uy)
    have "x / ulp x \<le> y / ulp x"
      using assms(2) ulp_pos [of x] by (simp add: divide_right_mono)
    then have "round_half_even (x / ulp x) \<le> round_half_even (y / ulp x)"
      by (rule rhe_mono)
    then show ?thesis
      using ulp_pos [of x] by (simp add: to_double_def same)
  next
    case False
    with ab have lt: "?a + 1 \<le> ?b" by simp
    have "?a < int 2045 - 1022"
      using lt binade_le [of 2045 y] by simp
    from binade_upper [OF this] have xlt: "x < 2 powi (?a + 1)" .
    have "?b \<noteq> - 1022" using lt binade_ge [of 2045 x] by simp
    from binade_lower [OF this] have yge: "2 powi ?b \<le> y" .
    have px: "(2::real) powi (?a + 1) = 2 ^ 53 * ulp x"
    proof -
      have "(2::real) powi (?a + 1) = 2 powi (53 + (?a - 52))"
        by (rule arg_cong [where f = "power_int 2"]) simp
      also have "\<dots> = 2 powi 53 * 2 powi (?a - 52)" by (rule power_int_add) simp
      finally show ?thesis by (simp add: ux)
    qed
    have py: "(2::real) powi ?b = 2 ^ 52 * ulp y"
    proof -
      have "(2::real) powi ?b = 2 powi (52 + (?b - 52))" by simp
      also have "\<dots> = 2 powi 52 * 2 powi (?b - 52)" by (rule power_int_add) simp
      finally show ?thesis by (simp add: uy)
    qed
    from xlt have "x < 2 ^ 53 * ulp x" by (simp only: px)
    then have "x / ulp x \<le> 2 ^ 53"
      using ulp_pos [of x] by (simp add: field_simps)
    then have "x / ulp x \<le> of_int (2 ^ 53)" by simp
    then have "round_half_even (x / ulp x) \<le> 2 ^ 53" by (rule rhe_le_int)
    then have "(of_int (round_half_even (x / ulp x)) :: real) \<le> of_int (2 ^ 53)"
      by (simp only: of_int_le_iff)
    then have "to_double x \<le> 2 ^ 53 * ulp x"
      using ulp_pos [of x] by (simp add: to_double_def)
    then have one: "to_double x \<le> 2 powi (?a + 1)" by (simp only: px)
    from yge have "2 ^ 52 * ulp y \<le> y" by (simp only: py)
    then have "2 ^ 52 \<le> y / ulp y"
      using ulp_pos [of y] by (simp add: field_simps)
    then have "of_int (2 ^ 52) \<le> y / ulp y" by simp
    then have "2 ^ 52 \<le> round_half_even (y / ulp y)" by (rule rhe_ge_int)
    then have "(of_int (2 ^ 52) :: real) \<le> of_int (round_half_even (y / ulp y))"
      by (simp only: of_int_le_iff)
    then have "2 ^ 52 * ulp y \<le> to_double y"
      using ulp_pos [of y] by (simp add: to_double_def)
    then have two: "2 powi ?b \<le> to_double y" by (simp only: py)
    have "(2::real) powi (?a + 1) \<le> 2 powi ?b"
      using lt by (intro power_int_increasing) simp_all
    with one two show ?thesis by linarith
  qed
qed

lemma ulp_below_128:
  assumes "0 \<le> x" and "x < 128"
  shows "ulp x \<le> 1 / 2 ^ 46"
proof -
  let ?a = "binade 2045 x"
  have "?a \<le> 6"
  proof (rule ccontr)
    assume "\<not> ?a \<le> 6"
    then have big: "7 \<le> ?a" by simp
    then have "?a \<noteq> - 1022" by simp
    from binade_lower [OF this] have "2 powi ?a \<le> x" .
    moreover have "(2::real) powi 7 \<le> 2 powi ?a"
      using big by (intro power_int_increasing) simp_all
    ultimately show False using assms(2) by simp
  qed
  then have "(2::real) powi (?a - 52) \<le> 2 powi (- 46)"
    by (intro power_int_increasing) simp_all
  then show ?thesis using assms(1) by (simp add: ulp_def power_int_minus field_simps)
qed

lemma to_double_exact:
  assumes "x = of_int n * ulp x"
  shows "to_double x = x"
proof -
  have "x / ulp x = of_int n"
    using assms ulp_pos [of x] by (simp add: field_simps)
  then show ?thesis using assms by (simp add: to_double_def)
qed

lemma ulp_eq:
  assumes "2 powi e \<le> \<bar>x\<bar>" and "\<bar>x\<bar> < 2 powi (e + 1)" and "- 1022 \<le> e" and "e \<le> 1023"
  shows "ulp x = 2 powi (e - 52)"
  using binade_eq [OF assms] by (simp add: ulp_def)

lemma to_double_25 [simp]: "to_double 25 = 25"
proof -
  have u: "ulp 25 = 2 powi (4 - 52)" by (rule ulp_eq) simp_all
  show ?thesis by (rule to_double_exact [of _ "25 * 2 ^ 48"]) (simp add: u)
qed

lemma to_double_50 [simp]: "to_double 50 = 50"
proof -
  have u: "ulp 50 = 2 powi (5 - 52)" by (rule ulp_eq) simp_all
  show ?thesis by (rule to_double_exact [of _ "50 * 2 ^ 47"]) (simp add: u)
qed

lemma to_double_90 [simp]: "to_double 90 = 90"
proof -
  have u: "ulp 90 = 2 powi (6 - 52)" by (rule ulp_eq) simp_all
  show ?thesis by (rule to_double_exact [of _ "90 * 2 ^ 46"]) (simp add: u)
qed

lemma to_double_100 [simp]: "to_double 100 = 100"
proof -
  have u: "ulp 100 = 2 powi (6 - 52)" by (rule ulp_eq) simp_all
  show ?thesis by (rule to_double_exact [of _ "100 * 2 ^ 46"]) (simp add: u)
qed

lemma times_double_0_015: "times_double double_0_015 100 = 3 / 2"
proof -
  let ?x = "27021597764222975 / 18014398509481984 :: real"
  have x: "double_0_015 * 100 = ?x"
    by (simp add: double_0_015_def)
  have u: "ulp ?x = 2 powi (- 52)"
    using ulp_eq [of 0 ?x] by simp
  have r: "round_half_even (?x / 2 powi (- 52)) = 6755399441055744"
    by (simp add: round_half_even_def)
  show ?thesis
    unfolding times_double_def x to_double_def u r by simp
qed

subsection \<open>Rounding\<close>

lemma Math_round_nearest: "\<bar>of_int (Math_round x) - x\<bar> \<le> 1 / 2"
  unfolding Math_round_def by linarith

lemma Math_round_mono: "x \<le> y \<Longrightarrow> Math_round x \<le> Math_round y"
  unfolding Math_round_def by (simp add: floor_mono)

lemma percent_mono:
  assumes "0 \<le> p" and "p \<le> q"
  shows "Math_round (times_double p 100) \<le> Math_round (times_double q 100)"
  unfolding times_double_def using assms
  by (intro Math_round_mono to_double_mono) simp_all

lemma percent_values:
  "Math_round (times_double 0 100) = 0"
  "Math_round (times_double (1 / 4) 100) = 25"
  "Math_round (times_double (1 / 2) 100) = 50"
  "Math_round (times_double (9 / 10) 100) = 90"
  "Math_round (times_double 1 100) = 100"
  by (simp_all add: times_double_def Math_round_def)

lemma Math_round_percent:
  assumes "0 \<le> p" and "p \<le> 1"
  shows "0 \<le> Math_round (times_double p 100)" and "Math_round (times_double p 100) \<le> 100"
  using percent_mono [OF order_refl assms(1)] percent_mono [OF assms]
  by (simp_all add: percent_values)

lemma times_double_percent_err:
  assumes "0 \<le> p" and "p \<le> 1"
  shows "\<bar>times_double p 100 - p * 100\<bar> \<le> 1 / 2 ^ 47"
proof -
  have "ulp (p * 100) \<le> 1 / 2 ^ 46"
    using assms by (intro ulp_below_128) simp_all
  with to_double_err [of "p * 100"] show ?thesis
    by (simp add: times_double_def)
qed

lemma string_of_int_25: "string_of_int 25 = ''25''"
  by code_simp

subsection \<open>The progress values of a run\<close>

lemma logger_progress_range:
  assumes "0 \<le> m_progress m" and "m_progress m \<le> 1"
    and "0 \<le> progress s" and "progress s \<le> 100"
  shows "0 \<le> progress (logger m s) \<and> progress (logger m s) \<le> 100"
  using assms Math_round_percent [OF assms(1,2)] by (simp add: logger_def)

lemma deliver_states_range:
  assumes "\<forall>m \<in> set ms. 0 \<le> m_progress m \<and> m_progress m \<le> 1"
    and "0 \<le> progress s" and "progress s \<le> 100"
  shows "\<forall>t \<in> set (deliver_states ms s). 0 \<le> progress t \<and> progress t \<le> 100"
  using assms
proof (induction ms arbitrary: s)
  case Nil
  then show ?case by simp
next
  case (Cons m ms)
  have step: "0 \<le> progress (logger m s) \<and> progress (logger m s) \<le> 100"
    using Cons.prems by (intro logger_progress_range) simp_all
  then show ?case using Cons.IH [of "logger m s"] Cons.prems(1) by simp
qed

text \<open>
  With non-decreasing fractions, none of which rounds below the current value, the
  stored value never goes down while messages arrive.
\<close>

lemma deliver_states_sorted:
  assumes "sorted (recognizing_fractions ms)"
    and "\<forall>q \<in> set (recognizing_fractions ms). 0 \<le> q"
    and "\<forall>q \<in> set (recognizing_fractions ms). progress s \<le> Math_round (times_double q 100)"
  shows "sorted (progress s # map progress (deliver_states ms s))"
  using assms
proof (induction ms arbitrary: s)
  case Nil
  then show ?case by simp
next
  case (Cons m ms)
  show ?case
  proof (cases "status m = ''recognizing text''")
    case True
    then have now: "progress (logger m s) = Math_round (times_double (m_progress m) 100)"
      by (simp add: logger_def)
    from True Cons.prems(1) have srt: "sorted (recognizing_fractions ms)"
      and le: "\<forall>q \<in> set (recognizing_fractions ms). m_progress m \<le> q"
      by (simp_all add: recognizing_fractions_def)
    from True Cons.prems(2) have pos: "0 \<le> m_progress m"
      and nonneg: "\<forall>q \<in> set (recognizing_fractions ms). 0 \<le> q"
      by (simp_all add: recognizing_fractions_def)
    have "\<forall>q \<in> set (recognizing_fractions ms). progress (logger m s) \<le> Math_round (times_double q 100)"
      using le pos by (simp add: now percent_mono)
    from Cons.IH [OF srt nonneg this]
    have rest: "sorted (progress (logger m s) # map progress (deliver_states ms (logger m s)))" .
    have "progress s \<le> progress (logger m s)"
      using Cons.prems(3) True by (simp add: now recognizing_fractions_def)
    with rest show ?thesis by auto
  next
    case False
    then have same: "progress (logger m s) = progress s"
      by (simp add: logger_def)
    from False Cons.prems have "sorted (recognizing_fractions ms)"
      and "\<forall>q \<in> set (recognizing_fractions ms). 0 \<le> q"
      and "\<forall>q \<in> set (recognizing_fractions ms). progress (logger m s) \<le> Math_round (times_double q 100)"
      by (simp_all add: recognizing_fractions_def same)
    from Cons.IH [OF this] show ?thesis by (simp add: same)
  qed
qed

text \<open>
  The progress values of a run: 0 after the reset, one value per delivered message, and
  the value set by the \<open>try\<close> or the \<open>catch\<close> block, which \<open>finally\<close> keeps.
\<close>

lemma progress_trace_resolved:
  assumes "imageFileRef s \<noteq> None" and "createWorker_result c = Resolved ()"
    and "recognize_result c = Resolved t"
  shows "progress_trace c s =
           0 # map progress (deliver_states (delivered_messages c) (processImage_start s))
             @ [100, 100]"
  using assms
  by (simp add: progress_trace_def processImage_states_def Let_def deliver_states_append
      deliver_states_workersCreated processImage_start_def processImage_success_def
      processImage_finally_def worker_terminate_def delivered_messages_def)

lemma progress_trace_rejected:
  assumes "imageFileRef s \<noteq> None"
    and "createWorker_result c = Rejected err \<or>
         (createWorker_result c = Resolved () \<and> recognize_result c = Rejected err)"
  shows "progress_trace c s =
           0 # map progress (deliver_states (delivered_messages c) (processImage_start s))
             @ [0, 0]"
proof -
  have caught: "progress (processImage_catch e u) = 0" for e u
    by (simp add: processImage_catch_def split: thrown.splits)
  from assms show ?thesis
    by (auto simp add: progress_trace_def processImage_states_def Let_def caught
        deliver_states_append deliver_states_workersCreated delivered_messages_def
        processImage_finally_def processImage_start_def)
qed

subsection \<open>The concrete runs, evaluated\<close>

lemma receipt_selected_eq:
  "receipt_selected =
     \<lparr>selectedImage = Some 0, extractedText = [], progress = 0, progressLabel = ''Idle'',
      loading = False, error = [], imageFileRef = Some ''receipt.png'',
      objectURLs = {0}, nextURL = 1, workersCreated = 0, terminateCalls = 0\<rparr>"
  by (simp add: receipt_selected_def selectImage_def handleImageChange_def createObjectURL_def
      rerender_def effect_cleanup_def initial_state_def)

lemmas run_simps =
  processImage_def processImage_states_def progress_trace_def Let_def processImage_start_def
  processImage_success_def processImage_catch_def processImage_finally_def
  worker_terminate_def logger_def percent_values string_of_int_25

lemma active_state_eq:
  "active_state =
     \<lparr>selectedImage = Some 0, extractedText = [], progress = 25,
      progressLabel = ''Recognizing text: 25%'', loading = True, error = [],
      imageFileRef = Some ''receipt.png'', objectURLs = {0}, nextURL = 1,
      workersCreated = 1, terminateCalls = 0\<rparr>"
  by (simp add: active_state_def receipt_run_def receipt_selected_eq run_simps)

subsection \<open>Object URLs\<close>

lemma selectImage_step:
  assumes "handles_ok s"
  shows "handles_ok (selectImage (Some (f # rest)) s)"
    and "objectURLs (selectImage (Some (f # rest)) s) = {nextURL s}"
    and "selectedImage (selectImage (Some (f # rest)) s) = Some (nextURL s)"
    and "nextURL (selectImage (Some (f # rest)) s) = Suc (nextURL s)"
  using assms
  by (auto simp add: handles_ok_def selectImage_def handleImageChange_def createObjectURL_def
      rerender_def effect_cleanup_def revokeObjectURL_def split: option.splits)

lemma selections_handles:
  assumes "handles_ok s" and "fs \<noteq> []"
  shows "objectURLs (selections fs s) = {nextURL s + length fs - 1} \<and>
         selectedImage (selections fs s) = Some (nextURL s + length fs - 1)"
  using assms
proof (induction fs arbitrary: s)
  case Nil
  then show ?case by simp
next
  case (Cons f fs)
  show ?case
  proof (cases "fs = []")
    case True
    then show ?thesis using selectImage_step [OF Cons.prems(1), of f "[]"] by simp
  next
    case False
    then show ?thesis
      using Cons.IH [OF selectImage_step(1) [OF Cons.prems(1), of f "[]"] False]
        selectImage_step(4) [OF Cons.prems(1), of f "[]"]
      by simp
  qed
qed

section \<open>The recognition worker\<close>

text \<open>
  C1. Every run of \<open>processImage\<close> should terminate the worker that \<open>createWorker\<close>
  returned exactly once, whether \<open>worker.recognize\<close> resolves or rejects. The call
  \<open>worker.terminate()\<close> is the last statement of the \<open>try\<close> block, so a rejection of
  \<open>recognize\<close> skips it: in the run \<open>recognize_fails_run\<close> one worker is created and
  \<open>terminate\<close> is never called, while the successful run \<open>receipt_run\<close> calls it once.
\<close>

theorem processImage_leaves_worker_when_recognize_rejects:
  "workersCreated (processImage recognize_fails_run receipt_selected) = 1 \<and>
   terminateCalls (processImage recognize_fails_run receipt_selected) = 0 \<and>
   workersCreated (processImage receipt_run receipt_selected) = 1 \<and>
   terminateCalls (processImage receipt_run receipt_selected) = 1"
  by (simp add: recognize_fails_run_def receipt_run_def receipt_selected_eq run_simps)

section \<open>One job at a time\<close>

text \<open>
  C2, as stated: while a job is active (\<open>loading\<close> is true), a further call of
  \<open>processImage\<close> is rejected and changes nothing. \<open>processImage\<close> tests only
  \<open>imageFileRef.current\<close>, never \<open>loading\<close>: called on the active state
  \<open>active_state\<close> (progress 25) it starts over from progress 0 and ends in another state.
\<close>

theorem processImage_restarts_active_job:
  "loading active_state \<and> imageFileRef active_state = Some ''receipt.png'' \<and>
   progress active_state = 25 \<and>
   progress_trace receipt_run active_state = [0, 0, 0, 25, 90, 90, 100, 100] \<and>
   processImage receipt_run active_state \<noteq> active_state"
  by (simp add: active_state_eq receipt_run_def run_simps)

text \<open>
  C2, amended: the guard is the \<open>disabled\<close> attribute of the convert button, the only
  caller of \<open>processImage\<close>. While \<open>loading\<close> is true the button is disabled, so a
  click does not reach \<open>processImage\<close> and leaves the whole state, the active job's
  included, as it is.
\<close>

theorem clickConvert_while_loading:
  assumes "loading s"
  shows "convert_disabled s \<and> clickConvert c s = s"
  using assms by (simp add: clickConvert_def convert_disabled_def)

theorem clickConvert_while_loading_witness:
  "loading active_state \<and> convert_disabled active_state \<and>
   clickConvert receipt_run active_state = active_state"
proof -
  have active: "loading active_state" by (simp add: active_state_eq)
  from clickConvert_while_loading [OF active, of receipt_run] active show ?thesis by simp
qed

section \<open>Failure\<close>

text \<open>
  C3, as stated: when \<open>createWorker\<close> or \<open>recognize\<close> rejects with an \<open>Error\<close>, the
  error message is the collaborator's error text. The \<open>catch\<close> block builds the message
  from a template: for the text \<open>network error\<close> the page shows
  \<open>Failed to extract text: network error\<close>.
\<close>

theorem processImage_error_text_is_prefixed:
  "error (processImage model_load_fails_run receipt_selected) =
     ''Failed to extract text: network error'' \<and>
   error (processImage model_load_fails_run receipt_selected) \<noteq> ''network error''"
  by (simp add: model_load_fails_run_def receipt_selected_eq run_simps)

text \<open>
  C3, amended: for every value with which \<open>createWorker\<close> or \<open>recognize\<close> rejects, the
  error message is \<open>Failed to extract text: \<close> followed by the collaborator's error
  text when the value is an \<open>Error\<close>, and the fixed text
  \<open>Failed to extract text: An unexpected error occurred.\<close> otherwise; the extracted
  text is empty, the progress is 0, the label is \<open>Error\<close> and \<open>loading\<close> is false.
\<close>

theorem processImage_failure:
  assumes "imageFileRef s \<noteq> None"
    and "createWorker_result c = Rejected err \<or>
         (createWorker_result c = Resolved () \<and> recognize_result c = Rejected err)"
  shows "error (processImage c s) =
           (case err of
              JsError msg \<Rightarrow> ''Failed to extract text: '' @ msg
            | NonError v \<Rightarrow> ''Failed to extract text: An unexpected error occurred.'') \<and>
         extractedText (processImage c s) = [] \<and>
         progress (processImage c s) = 0 \<and>
         progressLabel (processImage c s) = ''Error'' \<and>
         loading (processImage c s) = False"
  using assms
  by (auto simp add: processImage_def Let_def processImage_catch_def processImage_finally_def
      split: thrown.splits)

theorem processImage_failure_witness:
  "imageFileRef receipt_selected \<noteq> None \<and>
   createWorker_result model_load_fails_run = Rejected (JsError ''network error'') \<and>
   error (processImage model_load_fails_run receipt_selected) =
     ''Failed to extract text: network error'' \<and>
   extractedText (processImage model_load_fails_run receipt_selected) = [] \<and>
   progress (processImage model_load_fails_run receipt_selected) = 0 \<and>
   createWorker_result (recognize_fails_run\<lparr>recognize_result := Rejected (NonError ''timeout'')\<rparr>)
     = Resolved () \<and>
   error (processImage (recognize_fails_run\<lparr>recognize_result := Rejected (NonError ''timeout'')\<rparr>)
            receipt_selected) =
     ''Failed to extract text: An unexpected error occurred.'' \<and>
   progress (processImage (recognize_fails_run\<lparr>recognize_result := Rejected (NonError ''timeout'')\<rparr>)
               receipt_selected) = 0"
proof -
  let ?c = "recognize_fails_run\<lparr>recognize_result := Rejected (NonError ''timeout'')\<rparr>"
  have sel: "imageFileRef receipt_selected \<noteq> None" by code_simp
  have a: "createWorker_result model_load_fails_run = Rejected (JsError ''network error'')"
    by (simp add: model_load_fails_run_def)
  have b: "createWorker_result ?c = Resolved ()" "recognize_result ?c = Rejected (NonError ''timeout'')"
    by (simp_all add: recognize_fails_run_def)
  from a have a': "createWorker_result model_load_fails_run = Rejected (JsError ''network error'') \<or>
      (createWorker_result model_load_fails_run = Resolved () \<and>
       recognize_result model_load_fails_run = Rejected (JsError ''network error''))" ..
  from b have b': "createWorker_result ?c = Rejected (NonError ''timeout'') \<or>
      (createWorker_result ?c = Resolved () \<and> recognize_result ?c = Rejected (NonError ''timeout''))"
    by simp
  from processImage_failure [OF sel a'] processImage_failure [OF sel b'] sel a b(1)
  show ?thesis by simp
qed

text \<open>
  C4. With no file selected (\<open>imageFileRef.current\<close> is \<open>null\<close>), \<open>processImage\<close> returns
  at once: it sets the error message asking for an image and nothing else. No worker is
  created, and \<open>loading\<close>, \<open>extractedText\<close>, \<open>progress\<close> and \<open>progressLabel\<close> keep
  their values.
\<close>

theorem processImage_no_file:
  assumes "imageFileRef s = None"
  shows "processImage c s = s\<lparr>error := ''Please select an image first to start conversion.''\<rparr> \<and>
         error (processImage c s) = ''Please select an image first to start conversion.'' \<and>
         loading (processImage c s) = loading s \<and>
         extractedText (processImage c s) = extractedText s \<and>
         progress (processImage c s) = progress s \<and>
         progressLabel (processImage c s) = progressLabel s \<and>
         workersCreated (processImage c s) = workersCreated s \<and>
         processImage_states c s = [processImage c s]"
  using assms by (simp add: processImage_def processImage_states_def)

theorem processImage_no_file_witness:
  "imageFileRef initial_state = None \<and>
   error (processImage receipt_run initial_state) =
     ''Please select an image first to start conversion.'' \<and>
   loading (processImage receipt_run initial_state) = False \<and>
   extractedText (processImage receipt_run initial_state) = [] \<and>
   progress (processImage receipt_run initial_state) = 0 \<and>
   progressLabel (processImage receipt_run initial_state) = ''Idle'' \<and>
   workersCreated (processImage receipt_run initial_state) = 0"
proof -
  have none: "imageFileRef initial_state = None" by (simp add: initial_state_def)
  from processImage_no_file [OF none, of receipt_run] none show ?thesis
    by (simp add: initial_state_def)
qed

section \<open>Progress reports\<close>

text \<open>
  C5, as stated: a message with status \<open>recognizing text\<close> and a fraction \<open>p\<close> between 0
  and 1 sets the stored progress to the whole number nearest to \<open>p * 100\<close>. The
  callback rounds the double product \<open>m.progress * 100\<close>, not the exact one. For the
  double \<open>0.015\<close>, a little below fifteen thousandths, the exact product is a little
  below 1.5 and its nearest whole number is 1; the double product is exactly 1.5 and
  the page stores 2, more than one half away from \<open>p * 100\<close>.
\<close>

theorem logger_rounds_the_double_product:
  "0 \<le> double_0_015 \<and> double_0_015 \<le> 1 \<and>
   Math_round (double_0_015 * 100) = 1 \<and>
   progress (logger (Message ''recognizing text'' double_0_015) receipt_selected) = 2 \<and>
   \<not> \<bar>of_int (progress (logger (Message ''recognizing text'' double_0_015) receipt_selected))
        - double_0_015 * 100\<bar> \<le> 1 / 2"
proof -
  have stored: "progress (logger (Message ''recognizing text'' double_0_015) receipt_selected) = 2"
    by (simp add: logger_def times_double_0_015 Math_round_def)
  have exact: "Math_round (double_0_015 * 100) = 1"
    by (simp add: Math_round_def double_0_015_def)
  have range: "0 \<le> double_0_015 \<and> double_0_015 \<le> 1"
    by (simp add: double_0_015_def)
  have far: "\<not> \<bar>2 - double_0_015 * 100\<bar> \<le> 1 / 2"
    by (simp add: double_0_015_def)
  from stored exact range far show ?thesis by simp
qed

text \<open>
  C5, amended: a message with status \<open>recognizing text\<close> and a fraction \<open>p\<close> between 0
  and 1 sets the stored progress to \<open>Math.round\<close> of the double product \<open>p * 100\<close>: the
  whole number nearest to that product, a tie going up. The double product is within
  \<open>2 ^ -47\<close> of \<open>p * 100\<close>, so the stored value is the whole number nearest to
  \<open>p * 100\<close> whenever \<open>p * 100\<close> is more than \<open>2 ^ -47\<close> away from the two half-integers
  around it. It lies between 0 and 100. Messages take effect in the order delivered,
  and the stored value is the one of the latest \<open>recognizing text\<close> message, whatever
  came before it.
\<close>

theorem logger_recognizing:
  assumes "status m = ''recognizing text''" and "0 \<le> m_progress m" and "m_progress m \<le> 1"
    and "\<forall>m' \<in> set later. status m' \<noteq> ''recognizing text''"
  shows "progress (logger m s) = Math_round (times_double (m_progress m) 100) \<and>
         \<bar>of_int (progress (logger m s)) - times_double (m_progress m) 100\<bar> \<le> 1 / 2 \<and>
         \<bar>times_double (m_progress m) 100 - m_progress m * 100\<bar> \<le> 1 / 2 ^ 47 \<and>
         (1 / 2 ^ 47 < m_progress m * 100 - (of_int (Math_round (m_progress m * 100)) - 1 / 2) \<and>
          1 / 2 ^ 47 < of_int (Math_round (m_progress m * 100)) + 1 / 2 - m_progress m * 100
            \<longrightarrow> progress (logger m s) = Math_round (m_progress m * 100)) \<and>
         0 \<le> progress (logger m s) \<and> progress (logger m s) \<le> 100 \<and>
         deliver (earlier @ [m]) s = logger m (deliver earlier s) \<and>
         progress (deliver (earlier @ m # later) s) = Math_round (times_double (m_progress m) 100)"
proof -
  let ?x = "m_progress m * 100" and ?y = "times_double (m_progress m) 100"
  have eq: "progress (logger m s') = Math_round ?y" for s'
    using assms(1) by (simp add: logger_def)
  have err: "\<bar>?y - ?x\<bar> \<le> 1 / 2 ^ 47"
    using assms(2,3) by (rule times_double_percent_err)
  have same: "Math_round ?y = Math_round ?x"
    if lo: "1 / 2 ^ 47 < ?x - (of_int (Math_round ?x) - 1 / 2)"
      and hi: "1 / 2 ^ 47 < of_int (Math_round ?x) + 1 / 2 - ?x"
  proof -
    have "of_int (Math_round ?x) \<le> ?y + 1 / 2" using err lo by linarith
    moreover have "?y + 1 / 2 < of_int (Math_round ?x) + 1" using err hi by linarith
    ultimately have "\<lfloor>?y + 1 / 2\<rfloor> = Math_round ?x" by (simp add: floor_eq_iff)
    then show ?thesis by (simp add: Math_round_def)
  qed
  have "deliver (earlier @ m # later) s = deliver later (logger m (deliver earlier s))"
    by (simp add: deliver_append)
  then have latest: "progress (deliver (earlier @ m # later) s) = Math_round ?y"
    using assms(4) by (simp add: deliver_progress_frame eq)
  show ?thesis
    using Math_round_nearest [of ?y] Math_round_percent [OF assms(2,3)] err same latest
    by (simp add: eq deliver_append)
qed

theorem logger_recognizing_witness:
  "status (Message ''recognizing text'' (9 / 10)) = ''recognizing text'' \<and>
   (0::real) \<le> 9 / 10 \<and> (9 / 10 :: real) \<le> 1 \<and>
   Math_round (9 / 10 * 100) = 90 \<and>
   progress (logger (Message ''recognizing text'' (9 / 10)) receipt_selected) = 90 \<and>
   progress (deliver ([Message ''initializing tesseract'' 0, Message ''recognizing text'' (1 / 4)]
                        @ Message ''recognizing text'' (9 / 10) # [Message ''done'' 1])
               receipt_selected) = 90"
proof -
  let ?m = "Message ''recognizing text'' (9 / 10)"
  have st: "status ?m = ''recognizing text''" by simp
  have lo: "0 \<le> m_progress ?m" and hi: "m_progress ?m \<le> 1" by simp_all
  have later: "\<forall>m' \<in> set [Message ''done'' 1]. status m' \<noteq> ''recognizing text''" by simp
  have r: "Math_round 90 = 90" by (simp add: Math_round_def)
  from logger_recognizing [OF st lo hi later,
      of receipt_selected "[Message ''initializing tesseract'' 0, Message ''recognizing text'' (1 / 4)]"]
  show ?thesis by (simp add: r)
qed

text \<open>
  C10. A message whose status is not \<open>recognizing text\<close> leaves the stored progress, and
  every other part of the state but the label, as it is; a message whose status is none
  of the five strings the callback tests leaves the whole state, progress and label
  included, as it is.
\<close>

theorem logger_frame:
  "(status m \<noteq> ''recognizing text'' \<longrightarrow>
      progress (logger m s) = progress s \<and>
      logger m s = s\<lparr>progressLabel := progressLabel (logger m s)\<rparr>) \<and>
   (status m \<noteq> ''recognizing text'' \<and> status m \<noteq> ''loading tesseract core'' \<and>
    status m \<noteq> ''initializing tesseract'' \<and> status m \<noteq> ''loading language traineddata'' \<and>
    status m \<noteq> ''done''
      \<longrightarrow> progress (logger m s) = progress s \<and> progressLabel (logger m s) = progressLabel s \<and>
          logger m s = s)"
  by (simp add: logger_def)

theorem logger_frame_witness:
  "status (Message ''done'' 1) \<noteq> ''recognizing text'' \<and>
   progress (logger (Message ''done'' 1) active_state) = progress active_state \<and>
   logger (Message ''done'' 1) active_state =
     active_state\<lparr>progressLabel := progressLabel (logger (Message ''done'' 1) active_state)\<rparr> \<and>
   status (Message ''loading api'' 1) \<noteq> ''recognizing text'' \<and>
   status (Message ''loading api'' 1) \<noteq> ''loading tesseract core'' \<and>
   status (Message ''loading api'' 1) \<noteq> ''initializing tesseract'' \<and>
   status (Message ''loading api'' 1) \<noteq> ''loading language traineddata'' \<and>
   status (Message ''loading api'' 1) \<noteq> ''done'' \<and>
   progressLabel (logger (Message ''loading api'' 1) active_state) = progressLabel active_state \<and>
   logger (Message ''loading api'' 1) active_state = active_state"
proof -
  from logger_frame [of "Message ''done'' 1" active_state]
  have labelled: "progress (logger (Message ''done'' 1) active_state) = progress active_state \<and>
      logger (Message ''done'' 1) active_state =
        active_state\<lparr>progressLabel := progressLabel (logger (Message ''done'' 1) active_state)\<rparr>"
    by simp
  from logger_frame [of "Message ''loading api'' 1" active_state]
  have other: "logger (Message ''loading api'' 1) active_state = active_state"
    by simp
  from labelled other show ?thesis by simp
qed

section \<open>Selecting an image resets the page\<close>

text \<open>
  C6. From every state, \<open>handleImageChange\<close> with a chosen file empties the extracted
  text, sets the progress to 0 and the label to \<open>Idle\<close>, empties the error message,
  keeps the file, and makes the preview the object URL it has just created for that file.
\<close>

theorem handleImageChange_resets:
  "extractedText (handleImageChange (Some (f # rest)) s) = [] \<and>
   progress (handleImageChange (Some (f # rest)) s) = 0 \<and>
   progressLabel (handleImageChange (Some (f # rest)) s) = ''Idle'' \<and>
   error (handleImageChange (Some (f # rest)) s) = [] \<and>
   imageFileRef (handleImageChange (Some (f # rest)) s) = Some f \<and>
   selectedImage (handleImageChange (Some (f # rest)) s) = Some (fst (createObjectURL f s)) \<and>
   fst (createObjectURL f s) \<in> objectURLs (handleImageChange (Some (f # rest)) s)"
  by (simp add: handleImageChange_def createObjectURL_def)

section \<open>Success\<close>

text \<open>
  C7. When \<open>worker.recognize\<close> resolves with the text \<open>t\<close>, \<open>processImage\<close> ends with
  \<open>extractedText\<close> equal to \<open>t\<close>, progress 100, the label \<open>Done!\<close>, no error message and
  \<open>loading\<close> false.
\<close>

theorem processImage_success_result:
  assumes "imageFileRef s \<noteq> None"
    and "createWorker_result c = Resolved ()"
    and "recognize_result c = Resolved t"
  shows "extractedText (processImage c s) = t \<and>
         progress (processImage c s) = 100 \<and>
         progressLabel (processImage c s) = ''Done!'' \<and>
         error (processImage c s) = [] \<and>
         loading (processImage c s) = False"
  using assms
  by (simp add: processImage_def Let_def processImage_success_def processImage_finally_def
      worker_terminate_def processImage_start_def)

text \<open>The scenario of the receipt: the page shows exactly \<open>TOTAL $12.34\<close> at 100%.\<close>

theorem processImage_success_result_witness:
  "imageFileRef receipt_selected \<noteq> None \<and>
   createWorker_result receipt_run = Resolved () \<and>
   recognize_result receipt_run = Resolved ''TOTAL $12.34'' \<and>
   extractedText (processImage receipt_run receipt_selected) = ''TOTAL $12.34'' \<and>
   progress (processImage receipt_run receipt_selected) = 100 \<and>
   progressLabel (processImage receipt_run receipt_selected) = ''Done!'' \<and>
   loading (processImage receipt_run receipt_selected) = False"
proof -
  have sel: "imageFileRef receipt_selected \<noteq> None" by code_simp
  have made: "createWorker_result receipt_run = Resolved ()"
    and got: "recognize_result receipt_run = Resolved ''TOTAL $12.34''"
    by (simp_all add: receipt_run_def)
  from processImage_success_result [OF sel made got] sel made got show ?thesis by simp
qed

section \<open>Progress within a job\<close>

text \<open>
  C8, as stated: within one job the stored progress never decreases, from the reset
  through the reports to the final value, as long as the reported fractions lie between
  0 and 1. It does decrease: when \<open>recognize\<close> rejects after a report of 50%, the
  \<open>catch\<close> block puts it back to 0; and a report lower than the one before it is stored
  as it comes.
\<close>

theorem progress_trace_not_monotone:
  "progress_trace recognize_fails_run receipt_selected = [0, 0, 50, 0, 0] \<and>
   \<not> sorted (progress_trace recognize_fails_run receipt_selected) \<and>
   progress_trace backwards_run receipt_selected = [0, 90, 25, 100, 100] \<and>
   \<not> sorted (progress_trace backwards_run receipt_selected)"
  by (simp add: recognize_fails_run_def backwards_run_def receipt_selected_eq run_simps)

text \<open>
  C8, amended: within one job, with the fractions of the delivered reports between 0
  and 1, every stored progress value lies between 0 and 100. When the fractions of the
  successive \<open>recognizing text\<close> reports are themselves non-decreasing, the stored
  progress never decreases from the reset through all the reports, and, if the job
  succeeds, on to the final value 100. If \<open>createWorker\<close> or \<open>recognize\<close> rejects, the
  \<open>catch\<close> block then sets the progress back to 0, where \<open>finally\<close> leaves it. The last
  two values of the list are the ones set by the \<open>try\<close> or \<open>catch\<close> block and kept by
  \<open>finally\<close>; the list without them is the reset followed by the reports.
\<close>

theorem progress_trace_range_and_order:
  assumes sel: "imageFileRef s \<noteq> None"
    and range: "\<forall>m \<in> set (delivered_messages c). 0 \<le> m_progress m \<and> m_progress m \<le> 1"
  shows "(\<forall>p \<in> set (progress_trace c s). 0 \<le> p \<and> p \<le> 100) \<and>
         (sorted (recognizing_fractions (delivered_messages c)) \<longrightarrow>
            sorted (butlast (butlast (progress_trace c s))) \<and>
            (createWorker_result c = Resolved () \<and> recognize_result c = Resolved t
               \<longrightarrow> sorted (progress_trace c s))) \<and>
         (createWorker_result c = Rejected err \<or>
          (createWorker_result c = Resolved () \<and> recognize_result c = Rejected err)
            \<longrightarrow> last (progress_trace c s) = 0 \<and> last (butlast (progress_trace c s)) = 0)"
proof -
  let ?s0 = "processImage_start s"
  let ?body = "0 # map progress (deliver_states (delivered_messages c) ?s0)"
  have start: "progress ?s0 = 0"
    by (simp add: processImage_start_def)
  have seg: "\<forall>u \<in> set (deliver_states (delivered_messages c) ?s0). 0 \<le> progress u \<and> progress u \<le> 100"
    using range by (rule deliver_states_range) (simp_all add: start)
  then have body_range: "\<forall>p \<in> set ?body. 0 \<le> p \<and> p \<le> 100"
    by auto
  have shape: "progress_trace c s = ?body @ [100, 100] \<or> progress_trace c s = ?body @ [0, 0]"
  proof (cases "createWorker_result c")
    case (Rejected e)
    then show ?thesis using progress_trace_rejected [OF sel, of c e] by simp
  next
    case created: (Resolved w)
    show ?thesis
    proof (cases "recognize_result c")
      case (Rejected e)
      then show ?thesis using progress_trace_rejected [OF sel, of c e] created by simp
    next
      case (Resolved out)
      then show ?thesis using progress_trace_resolved [OF sel, of c out] created by simp
    qed
  qed
  have part1: "\<forall>p \<in> set (progress_trace c s). 0 \<le> p \<and> p \<le> 100"
    using shape body_range by auto
  have pending: "butlast (butlast (progress_trace c s)) = ?body"
    using shape by (auto simp add: butlast_append)
  have part2: "sorted (butlast (butlast (progress_trace c s))) \<and>
      (createWorker_result c = Resolved () \<and> recognize_result c = Resolved t
         \<longrightarrow> sorted (progress_trace c s))"
    if srt: "sorted (recognizing_fractions (delivered_messages c))"
  proof -
    have fr: "\<forall>q \<in> set (recognizing_fractions (delivered_messages c)). 0 \<le> q \<and> q \<le> 1"
      using range by (auto simp add: recognizing_fractions_def)
    then have nonneg: "\<forall>q \<in> set (recognizing_fractions (delivered_messages c)). 0 \<le> q"
      by simp
    have above: "\<forall>q \<in> set (recognizing_fractions (delivered_messages c)).
        progress ?s0 \<le> Math_round (times_double q 100)"
      using fr Math_round_percent(1) by (simp add: start)
    from deliver_states_sorted [OF srt nonneg above]
    have body: "sorted ?body" by (simp add: start)
    have "sorted (?body @ [100, 100])"
      using body body_range by (auto simp add: sorted_append)
    then have "sorted (progress_trace c s)"
      if "createWorker_result c = Resolved () \<and> recognize_result c = Resolved t"
      using progress_trace_resolved [OF sel, of c t] that by simp
    with body show ?thesis by (simp add: pending)
  qed
  have part3: "last (progress_trace c s) = 0 \<and> last (butlast (progress_trace c s)) = 0"
    if "createWorker_result c = Rejected err \<or>
        (createWorker_result c = Resolved () \<and> recognize_result c = Rejected err)"
    using progress_trace_rejected [OF sel that] by (simp add: butlast_append)
  from part1 part2 part3 show ?thesis by blast
qed

theorem progress_trace_range_and_order_witness:
  "imageFileRef receipt_selected = Some ''receipt.png'' \<and>
   createWorker_result receipt_run = Resolved () \<and>
   recognize_result receipt_run = Resolved ''TOTAL $12.34'' \<and>
   recognizing_fractions (delivered_messages receipt_run) = [1 / 4, 9 / 10] \<and>
   list_all (\<lambda>p. 0 \<le> p \<and> p \<le> 100) (progress_trace receipt_run receipt_selected) \<and>
   sorted (butlast (butlast (progress_trace receipt_run receipt_selected))) \<and>
   sorted (progress_trace receipt_run receipt_selected) \<and>
   createWorker_result recognize_fails_run = Resolved () \<and>
   recognize_result recognize_fails_run = Rejected (JsError ''network error'') \<and>
   recognizing_fractions (delivered_messages recognize_fails_run) = [1 / 2] \<and>
   list_all (\<lambda>p. 0 \<le> p \<and> p \<le> 100) (progress_trace recognize_fails_run receipt_selected) \<and>
   sorted (butlast (butlast (progress_trace recognize_fails_run receipt_selected))) \<and>
   last (progress_trace recognize_fails_run receipt_selected) = 0"
proof -
  have sel: "imageFileRef receipt_selected = Some ''receipt.png''"
    by (simp add: receipt_selected_eq)
  then have sel': "imageFileRef receipt_selected \<noteq> None" by simp
  have r1: "\<forall>m \<in> set (delivered_messages receipt_run). 0 \<le> m_progress m \<and> m_progress m \<le> 1"
    by (simp add: receipt_run_def delivered_messages_def)
  have ok1: "createWorker_result receipt_run = Resolved ()"
    "recognize_result receipt_run = Resolved ''TOTAL $12.34''"
    "recognizing_fractions (delivered_messages receipt_run) = [1 / 4, 9 / 10]"
    by (simp_all add: receipt_run_def recognizing_fractions_def delivered_messages_def)
  have r2: "\<forall>m \<in> set (delivered_messages recognize_fails_run). 0 \<le> m_progress m \<and> m_progress m \<le> 1"
    by (simp add: recognize_fails_run_def delivered_messages_def)
  have ko2: "createWorker_result recognize_fails_run = Resolved ()"
    "recognize_result recognize_fails_run = Rejected (JsError ''network error'')"
    "recognizing_fractions (delivered_messages recognize_fails_run) = [1 / 2]"
    by (simp_all add: recognize_fails_run_def recognizing_fractions_def delivered_messages_def)
  from progress_trace_range_and_order [OF sel' r1, of "''TOTAL $12.34''" "JsError ''network error''"]
  have one: "list_all (\<lambda>p. 0 \<le> p \<and> p \<le> 100) (progress_trace receipt_run receipt_selected) \<and>
      sorted (butlast (butlast (progress_trace receipt_run receipt_selected))) \<and>
      sorted (progress_trace receipt_run receipt_selected)"
    by (simp add: ok1 list_all_iff)
  from progress_trace_range_and_order [OF sel' r2, of "''TOTAL $12.34''" "JsError ''network error''"]
  have two: "list_all (\<lambda>p. 0 \<le> p \<and> p \<le> 100) (progress_trace recognize_fails_run receipt_selected) \<and>
      sorted (butlast (butlast (progress_trace recognize_fails_run receipt_selected))) \<and>
      last (progress_trace recognize_fails_run receipt_selected) = 0"
    by (simp add: ko2 list_all_iff)
  from one two sel ok1 ko2 show ?thesis by simp
qed

section \<open>Object URLs are released\<close>

text \<open>
  C9. Each selection revokes the object URL of the selection before it, so after any
  number \<open>N \<ge> 1\<close> of selections in a row exactly one object URL is live: the one created
  by the \<open>N\<close>th selection, which is also the one the preview shows.
\<close>

theorem selections_keep_one_handle:
  assumes "handles_ok s"
  shows "(selectedImage s = Some u \<longrightarrow> u \<notin> objectURLs (selectImage (Some (f # rest)) s)) \<and>
         objectURLs (selectImage (Some (f # rest)) s) = {fst (createObjectURL f s)} \<and>
         (fs \<noteq> [] \<longrightarrow>
            objectURLs (selections fs s) = {nextURL s + length fs - 1} \<and>
            selectedImage (selections fs s) = Some (nextURL s + length fs - 1))"
proof (intro conjI impI)
  assume "selectedImage s = Some u"
  then have "u < nextURL s"
    using assms by (auto simp add: handles_ok_def)
  then show "u \<notin> objectURLs (selectImage (Some (f # rest)) s)"
    by (simp add: selectImage_step(2) [OF assms])
next
  show "objectURLs (selectImage (Some (f # rest)) s) = {fst (createObjectURL f s)}"
    by (simp add: selectImage_step(2) [OF assms] createObjectURL_def)
next
  assume "fs \<noteq> []"
  from selections_handles [OF assms this]
  show "objectURLs (selections fs s) = {nextURL s + length fs - 1}"
    and "selectedImage (selections fs s) = Some (nextURL s + length fs - 1)"
    by simp_all
qed

theorem selections_keep_one_handle_witness:
  "objectURLs initial_state = {} \<and> selectedImage initial_state = None \<and>
   objectURLs (selections [''a.png'', ''b.png'', ''c.png''] initial_state) = {2} \<and>
   selectedImage (selections [''a.png'', ''b.png'', ''c.png''] initial_state) = Some 2 \<and>
   selectedImage receipt_selected = Some 0 \<and>
   0 \<notin> objectURLs (selectImage (Some [''b.png'']) receipt_selected)"
proof -
  have e: "objectURLs initial_state = {}" "selectedImage initial_state = None"
    by (simp_all add: initial_state_def)
  then have i: "handles_ok initial_state"
    by (simp add: handles_ok_def)
  have n: "nextURL initial_state = 0"
    by (simp add: initial_state_def)
  have r: "handles_ok receipt_selected"
    unfolding receipt_selected_def by (rule selectImage_step(1) [OF i])
  have p: "selectedImage receipt_selected = Some 0"
    unfolding receipt_selected_def by (simp add: selectImage_step(3) [OF i] n)
  from selections_keep_one_handle [OF i, of 0 "''x''" "[]" "[''a.png'', ''b.png'', ''c.png'']"]
  have three: "objectURLs (selections [''a.png'', ''b.png'', ''c.png''] initial_state) = {2} \<and>
      selectedImage (selections [''a.png'', ''b.png'', ''c.png''] initial_state) = Some 2"
    by (simp add: n)
  from selections_keep_one_handle [OF r, of 0 "''b.png''" "[]" "[]"] p
  have gone: "0 \<notin> objectURLs (selectImage (Some [''b.png'']) receipt_selected)"
    by blast
  from three gone e p show ?thesis by simp
qed

end
